theory Spec2Isabelle
  imports Complex_Main "HOL-Library.Word" "HOL-Library.AList"
begin

unbundle bit_operations_syntax

section \<open>Data model\<close>

text \<open>
  A hop is the tuple \<^verbatim>\<open>(ttl, ip_or_None, rtt_ms)\<close> that \<^verbatim>\<open>Traceroute.run\<close> appends;
  Python's \<^verbatim>\<open>int\<close> is unbounded, so the ttl is an \<open>int\<close>. The round-trip time is a
  Python float; it is modelled by a real number, which is exact for the comparisons with
  zero and the differences the code takes. A dictionary whose iteration order matters
  (\<^verbatim>\<open>results.items()\<close>) is an association list in insertion order, updated by
  \<open>AList.update\<close> (an existing key keeps its place, a new key goes last); the derived
  dictionaries, which are only compared as mappings, are maps.
\<close>

type_synonym byte = "8 word"

type_synonym hop = "int \<times> string option \<times> real option"

type_synonym result_set = "(string \<times> hop list) list"

type_synonym adjacency = "string \<rightharpoonup> string set"

type_synonym edge_latencies = "(string \<times> string) \<rightharpoonup> real list"

text \<open>
  The exceptions of the standard library that the calls of the source can raise.
  \<^verbatim>\<open>socket.gaierror\<close> and \<^verbatim>\<open>PermissionError\<close> are subclasses of \<^verbatim>\<open>OSError\<close> (which
  \<^verbatim>\<open>socket.error\<close> names as well); \<open>OSError\<close> stands for every other one of that
  class. \<open>is_OSError\<close> is the subclass test of \<^verbatim>\<open>except OSError\<close>.
\<close>

datatype builtin = Gaierror | PermissionError | OSError | UnicodeError | OverflowError
  | ValueError | StructError

fun is_OSError :: "builtin \<Rightarrow> bool" where
  "is_OSError Gaierror = True"
| "is_OSError PermissionError = True"
| "is_OSError OSError = True"
| "is_OSError UnicodeError = False"
| "is_OSError OverflowError = False"
| "is_OSError ValueError = False"
| "is_OSError StructError = False"

text \<open>
  What a function of the program raises: one of the exceptions of \<^verbatim>\<open>exceptions.py\<close>,
  or an exception of the standard library that the source lets through unconverted.
  \<open>is_TracerouteError\<close> is the subclass test of \<^verbatim>\<open>except TracerouteError\<close>.
\<close>

datatype error = TracerouteError | DNSResolveError | TraceroutePermissionError
  | Builtin builtin

fun is_TracerouteError :: "error \<Rightarrow> bool" where
  "is_TracerouteError TracerouteError = True"
| "is_TracerouteError DNSResolveError = True"
| "is_TracerouteError TraceroutePermissionError = True"
| "is_TracerouteError (Builtin b) = False"

section \<open>traceroute.py\<close>

subsection \<open>\<^verbatim>\<open>_parse_icmp_type\<close>\<close>

text \<open>
  \<^verbatim>\<open>struct.unpack("!BBH", b)\<close> raises \<^verbatim>\<open>struct.error\<close> unless \<open>b\<close> has exactly four
  bytes; otherwise it yields two unsigned bytes and one big-endian unsigned 16-bit
  number.
\<close>

fun unpack_BBH :: "byte list \<Rightarrow> error + (nat \<times> nat \<times> nat)" where
  "unpack_BBH [t, c, h1, h0] = Inr (unat t, unat c, unat h1 * 256 + unat h0)"
| "unpack_BBH _ = Inl (Builtin StructError)"

text \<open>The slice \<^verbatim>\<open>data[i : j]\<close> for \<open>0 \<le> i \<le> j\<close>; it never raises.\<close>

definition py_slice :: "'a list \<Rightarrow> nat \<Rightarrow> nat \<Rightarrow> 'a list" where
  "py_slice xs i j = take (j - i) (drop i xs)"

definition header_length :: "byte list \<Rightarrow> nat" where
  "header_length data = unat (data ! 0 AND 0x0F) * 4"

definition parse_icmp_type :: "byte list \<Rightarrow> error + nat option" where
  "parse_icmp_type data =
     (if length data < 20 then Inr None
      else
        let ihl = header_length data in
        if length data < ihl + 4 then Inr None
        else
          (case unpack_BBH (py_slice data ihl (ihl + 4)) of
             Inl e \<Rightarrow> Inl e
           | Inr (icmp_type, _, _) \<Rightarrow> Inr (Some icmp_type)))"

subsection \<open>The network as the trace observes it\<close>

text \<open>
  The sockets, the clock and the resolver are the environment of a trace. One
  \<open>network\<close> value fixes what one \<^verbatim>\<open>Traceroute.run\<close> observes:
  \<^item> \<open>gethostbyname\<close>: the address of a name, or the exception that
    \<^verbatim>\<open>socket.gethostbyname\<close> raises for it (\<^verbatim>\<open>socket.gaierror\<close> for a name that does not
    resolve, \<^verbatim>\<open>UnicodeError\<close> for a name such as \<^verbatim>\<open>a..b\<close> that cannot be encoded);
  \<^item> \<open>raw_socket\<close>: the exception that creating the raw socket raises, if any
    (\<^verbatim>\<open>PermissionError\<close> without the privilege);
  \<^item> \<open>udp_socket\<close>: the exception that creating or binding the UDP socket raises, if any;
  \<^item> \<open>setsockopt\<close>: the exception that setting the ttl as \<^verbatim>\<open>IP_TTL\<close> raises, if any;
  \<^item> \<open>sendto\<close>: the exception that the system raises for a datagram to an address and
    port, if any;
  \<^item> \<open>clock_start\<close>: \<^verbatim>\<open>time.time()\<close> when \<^verbatim>\<open>_receive_reply\<close> is entered for a ttl;
  \<^item> \<open>arrivals\<close>: for a ttl, what the successive iterations of the loop of
    \<^verbatim>\<open>_receive_reply\<close> observe: the clock at the head of the iteration, and what
    \<^verbatim>\<open>recvfrom\<close> then does. When the list is exhausted, \<^verbatim>\<open>select\<close> reports nothing
    readable for the rest of the time left.
\<close>

datatype recv = SocketError | Datagram "byte list" string real

type_synonym arrival = "real \<times> recv"

record network =
  gethostbyname :: "string \<Rightarrow> builtin + string"
  raw_socket :: "builtin option"
  udp_socket :: "builtin option"
  setsockopt :: "int \<Rightarrow> builtin option"
  sendto :: "string \<Rightarrow> int \<Rightarrow> builtin option"
  clock_start :: "int \<Rightarrow> real"
  arrivals :: "int \<Rightarrow> arrival list"

record traceroute =
  timeout :: real
  port :: int

definition Traceroute_init :: "int \<Rightarrow> int \<Rightarrow> traceroute" where
  "Traceroute_init t p = \<lparr>timeout = real_of_int t, port = p\<rparr>"

subsection \<open>\<^verbatim>\<open>_resolve\<close>, \<^verbatim>\<open>_create_sockets\<close>, \<^verbatim>\<open>_send_probe\<close>\<close>

text \<open>\<^verbatim>\<open>_resolve\<close> converts \<^verbatim>\<open>socket.gaierror\<close> and nothing else.\<close>

definition resolve :: "network \<Rightarrow> string \<Rightarrow> error + string" where
  "resolve net destination =
     (case gethostbyname net destination of
        Inl b \<Rightarrow> if b = Gaierror then Inl DNSResolveError else Inl (Builtin b)
      | Inr ip \<Rightarrow> Inr ip)"

text \<open>
  \<^verbatim>\<open>_create_sockets\<close>: within the \<^verbatim>\<open>try\<close>, which converts \<^verbatim>\<open>PermissionError\<close> only,
  the raw socket is created and \<^verbatim>\<open>settimeout(self.timeout)\<close> raises \<^verbatim>\<open>ValueError\<close> for
  a negative timeout; the UDP socket is created and bound outside it.
\<close>

definition create_sockets :: "traceroute \<Rightarrow> network \<Rightarrow> error + unit" where
  "create_sockets self net =
     (case raw_socket net of
        Some b \<Rightarrow> if b = PermissionError then Inl TraceroutePermissionError else Inl (Builtin b)
      | None \<Rightarrow>
          if timeout self < 0 then Inl (Builtin ValueError)
          else
            (case udp_socket net of
               Some b \<Rightarrow> Inl (Builtin b)
             | None \<Rightarrow> Inr ()))"

text \<open>
  \<^verbatim>\<open>_send_probe\<close>: \<^verbatim>\<open>setsockopt\<close> stands outside the \<^verbatim>\<open>try\<close>; \<^verbatim>\<open>sendto\<close> raises
  \<^verbatim>\<open>OverflowError\<close> for a port outside 0..65535 before anything is sent, and the
  \<^verbatim>\<open>try\<close> converts \<^verbatim>\<open>OSError\<close> only.
\<close>

definition send_probe :: "network \<Rightarrow> string \<Rightarrow> int \<Rightarrow> int \<Rightarrow> error + unit" where
  "send_probe net dest_ip dest_port ttl =
     (case setsockopt net ttl of
        Some b \<Rightarrow> Inl (Builtin b)
      | None \<Rightarrow>
          if dest_port < 0 \<or> 65535 < dest_port then Inl (Builtin OverflowError)
          else
            (case sendto net dest_ip dest_port of
               Some b \<Rightarrow> if is_OSError b then Inl TracerouteError else Inl (Builtin b)
             | None \<Rightarrow> Inr ()))"

subsection \<open>\<^verbatim>\<open>_receive_reply\<close>\<close>

type_synonym reply = "string option \<times> nat option \<times> real option"

text \<open>
  The \<^verbatim>\<open>while True\<close> loop, one arrival per iteration; the triple is the current value of
  \<^verbatim>\<open>(addr, icmp_type, rtt_ms)\<close>, which every \<^verbatim>\<open>break\<close> returns as it stands.
\<close>

fun receive_loop :: "real \<Rightarrow> real \<Rightarrow> reply \<Rightarrow> arrival list \<Rightarrow> error + reply" where
  "receive_loop tmo start cur [] = Inr cur"
| "receive_loop tmo start cur ((now, r) # rest) =
     (if tmo - (now - start) \<le> 0 then Inr cur
      else
        (case r of
           SocketError \<Rightarrow> Inr cur
         | Datagram data curr_addr recv_time \<Rightarrow>
             (case parse_icmp_type data of
                Inl e \<Rightarrow> Inl e
              | Inr icmp_type \<Rightarrow>
                  if icmp_type = Some 11 \<or> icmp_type = Some 3
                  then Inr (Some curr_addr, icmp_type, Some ((recv_time - start) * 1000))
                  else receive_loop tmo start
                         (Some curr_addr, icmp_type, Some ((recv_time - start) * 1000)) rest)))"

definition receive_reply :: "network \<Rightarrow> int \<Rightarrow> real \<Rightarrow> error + reply" where
  "receive_reply net ttl tmo =
     receive_loop tmo (clock_start net ttl) (None, None, None) (arrivals net ttl)"

subsection \<open>\<^verbatim>\<open>run\<close>\<close>

text \<open>
  The probing loop has no bound on the ttl, so it may run forever: it is a partial
  function, and \<open>None\<close> is the trace that never returns. Closing the two sockets in the
  \<^verbatim>\<open>finally\<close> block changes nothing the caller observes.
\<close>

partial_function (option) probing ::
  "network \<Rightarrow> real \<Rightarrow> int \<Rightarrow> string \<Rightarrow> int \<Rightarrow> hop list \<Rightarrow> (error + hop list) option" where
  "probing net tmo base_port dest_ip ttl hops =
     (case send_probe net dest_ip (base_port + ttl) ttl of
        Inl e \<Rightarrow> Some (Inl e)
      | Inr _ \<Rightarrow>
          (case receive_reply net ttl tmo of
             Inl e \<Rightarrow> Some (Inl e)
           | Inr (addr, icmp_type, rtt_ms) \<Rightarrow>
               (case addr of
                  None \<Rightarrow> probing net tmo base_port dest_ip (ttl + 1) (hops @ [(ttl, None, None)])
                | Some a \<Rightarrow>
                    if a = dest_ip \<or> (icmp_type \<noteq> None \<and> icmp_type = Some 3)
                    then Some (Inr (hops @ [(ttl, Some a, rtt_ms)]))
                    else probing net tmo base_port dest_ip (ttl + 1)
                           (hops @ [(ttl, Some a, rtt_ms)]))))"

definition Traceroute_run ::
  "traceroute \<Rightarrow> network \<Rightarrow> string \<Rightarrow> (error + hop list) option" where
  "Traceroute_run self net destination =
     (case resolve net destination of
        Inl e \<Rightarrow> Some (Inl e)
      | Inr dest_ip \<Rightarrow>
          (case create_sockets self net of
             Inl e \<Rightarrow> Some (Inl e)
           | Inr _ \<Rightarrow> probing net (timeout self) (port self) dest_ip 1 []))"

section \<open>network_topologer.py\<close>

text \<open>
  The fields \<^verbatim>\<open>timeout\<close> and \<^verbatim>\<open>port\<close> of the class are \<open>nt_timeout\<close> and
  \<open>nt_port\<close> here, apart from those of the tracer.
\<close>

record network_topologer =
  nt_timeout :: int
  nt_port :: int
  results :: result_set

definition NetworkTopologer_init :: "int \<Rightarrow> int \<Rightarrow> network_topologer" where
  "NetworkTopologer_init t p = \<lparr>nt_timeout = t, nt_port = p, results = []\<rparr>"

subsection \<open>\<^verbatim>\<open>run\<close>\<close>

text \<open>
  The \<open>i\<close>-th call of \<^verbatim>\<open>tracer.run\<close> of a batch observes the network \<open>world i\<close>. The
  outcome of an orchestration call is what it raises or returns, together with the
  instance as the call leaves it; \<open>None\<close> is a call that never returns.
\<close>

fun run_loop ::
  "(nat \<Rightarrow> network) \<Rightarrow> network_topologer \<Rightarrow> nat \<Rightarrow> string list
    \<Rightarrow> ((error + result_set) \<times> network_topologer) option" where
  "run_loop world self i [] = Some (Inr (results self), self)"
| "run_loop world self i (dest # dests) =
     (case Traceroute_run (Traceroute_init (nt_timeout self) (nt_port self)) (world i) dest of
        None \<Rightarrow> None
      | Some (Inl e) \<Rightarrow>
          if is_TracerouteError e
          then run_loop world (self\<lparr>results := AList.update dest [] (results self)\<rparr>)
                 (Suc i) dests
          else Some (Inl e, self)
      | Some (Inr hops) \<Rightarrow>
          run_loop world (self\<lparr>results := AList.update dest hops (results self)\<rparr>)
            (Suc i) dests)"

definition NetworkTopologer_run ::
  "(nat \<Rightarrow> network) \<Rightarrow> network_topologer \<Rightarrow> string list
    \<Rightarrow> ((error + result_set) \<times> network_topologer) option" where
  "NetworkTopologer_run world self destinations = run_loop world self 0 destinations"

subsection \<open>\<^verbatim>\<open>run_parallel\<close>\<close>

text \<open>
  The worker of the \<open>i\<close>-th destination observes \<open>world i\<close> and shares nothing with the
  others; only the main thread writes \<^verbatim>\<open>self.results\<close>, in the order in which
  \<^verbatim>\<open>as_completed\<close> yields the futures. That order is the parameter \<open>completion\<close>, a
  permutation of the indices of the destinations. When some worker never finishes, the
  call never returns.
\<close>

definition worker ::
  "network \<Rightarrow> network_topologer \<Rightarrow> string \<Rightarrow> (error + string \<times> hop list) option" where
  "worker net self dest =
     (case Traceroute_run (Traceroute_init (nt_timeout self) (nt_port self)) net dest of
        None \<Rightarrow> None
      | Some (Inl e) \<Rightarrow> if is_TracerouteError e then Some (Inr (dest, [])) else Some (Inl e)
      | Some (Inr hops) \<Rightarrow> Some (Inr (dest, hops)))"

fun as_completed_loop ::
  "network_topologer \<Rightarrow> (error + string \<times> hop list) option list
    \<Rightarrow> ((error + result_set) \<times> network_topologer) option" where
  "as_completed_loop self [] = Some (Inr (results self), self)"
| "as_completed_loop self (None # futs) = None"
| "as_completed_loop self (Some (Inl e) # futs) = Some (Inl e, self)"
| "as_completed_loop self (Some (Inr (dest, hops)) # futs) =
     as_completed_loop (self\<lparr>results := AList.update dest hops (results self)\<rparr>) futs"

text \<open>
  \<^verbatim>\<open>workers or (min(len(destinations), 32) if destinations else 1)\<close>: \<^verbatim>\<open>None\<close> and
  \<open>0\<close> are false. \<^verbatim>\<open>ThreadPoolExecutor\<close> raises \<^verbatim>\<open>ValueError\<close> for a number of
  workers that is not positive.
\<close>

definition max_workers_of :: "string list \<Rightarrow> int option \<Rightarrow> int" where
  "max_workers_of destinations workers =
     (case workers of
        None \<Rightarrow> if destinations \<noteq> [] then min (int (length destinations)) 32 else 1
      | Some n \<Rightarrow>
          if n \<noteq> 0 then n
          else if destinations \<noteq> [] then min (int (length destinations)) 32 else 1)"

definition run_parallel ::
  "(nat \<Rightarrow> network) \<Rightarrow> nat list \<Rightarrow> network_topologer \<Rightarrow> string list \<Rightarrow> int option
    \<Rightarrow> ((error + result_set) \<times> network_topologer) option" where
  "run_parallel world completion self0 destinations workers =
     (let self = self0\<lparr>results := []\<rparr>;
          max_workers = max_workers_of destinations workers
      in
        if max_workers \<le> 0 then Some (Inl (Builtin ValueError), self)
        else
          let futures = map (\<lambda>i. worker (world i) self (destinations ! i))
                          [0..<length destinations]
          in
            if None \<in> set futures then None
            else as_completed_loop self (map (\<lambda>i. futures ! i) completion))"

subsection \<open>\<^verbatim>\<open>build_adjacency\<close>\<close>

text \<open>\<^verbatim>\<open>adjacency.setdefault(a, set()).add(b)\<close>\<close>

definition add_edge :: "adjacency \<Rightarrow> string \<Rightarrow> string \<Rightarrow> adjacency" where
  "add_edge adjacency a b =
     adjacency(a \<mapsto> insert b (case adjacency a of None \<Rightarrow> {} | Some s \<Rightarrow> s))"

text \<open>
  \<^verbatim>\<open>range(len(ips) - 1)\<close> is empty for an empty list, as \<open>[0..<0 - 1]\<close> is on
  natural numbers.
\<close>

definition build_adjacency :: "network_topologer \<Rightarrow> result_set option \<Rightarrow> adjacency" where
  "build_adjacency self results_arg =
     (let results = (case results_arg of None \<Rightarrow> results self | Some r \<Rightarrow> r) in
      fold (\<lambda>(_, hops) adjacency.
              let ips = [the ip. (_, ip, _) \<leftarrow> hops, ip \<noteq> None] in
              fold (\<lambda>i adjacency. add_edge adjacency (ips ! i) (ips ! (i + 1)))
                [0..<length ips - 1] adjacency)
        results Map.empty)"

subsection \<open>\<^verbatim>\<open>build_adjacency_with_latency\<close>\<close>

text \<open>The truth value of a float in a condition: every float but zero is true.\<close>

definition truthy :: "real \<Rightarrow> bool" where
  "truthy x = (x \<noteq> 0)"

text \<open>\<^verbatim>\<open>edge_latencies.setdefault(edge, []).append(delta_ms)\<close>\<close>

definition add_sample :: "edge_latencies \<Rightarrow> string \<times> string \<Rightarrow> real \<Rightarrow> edge_latencies" where
  "add_sample edge_latencies edge delta_ms =
     edge_latencies(edge \<mapsto>
       (case edge_latencies edge of None \<Rightarrow> [] | Some l \<Rightarrow> l) @ [delta_ms])"

text \<open>
  The body of the inner loop, for the pairs at the indices \<open>i\<close> and \<open>i + 1\<close>:
  \<^verbatim>\<open>dst_rtt - src_rtt if (dst_rtt and src_rtt) else dst_rtt\<close>, kept
  \<^verbatim>\<open>if delta_ms and delta_ms > 0\<close>.
\<close>

definition latency_step ::
  "string \<times> real \<Rightarrow> string \<times> real \<Rightarrow> edge_latencies \<Rightarrow> edge_latencies" where
  "latency_step p q edge_latencies =
     (case (p, q) of
        ((src_ip, src_rtt), (dst_ip, dst_rtt)) \<Rightarrow>
          let delta_ms =
                (if truthy dst_rtt \<and> truthy src_rtt then dst_rtt - src_rtt
                 else dst_rtt)
          in
            if truthy delta_ms \<and> delta_ms > 0
            then add_sample edge_latencies (src_ip, dst_ip) delta_ms
            else edge_latencies)"

definition build_adjacency_with_latency ::
  "network_topologer \<Rightarrow> result_set option \<Rightarrow> edge_latencies" where
  "build_adjacency_with_latency self results_arg =
     (let results = (case results_arg of None \<Rightarrow> results self | Some r \<Rightarrow> r) in
      fold (\<lambda>(_, hops) edge_latencies.
              let ip_rtt_pairs =
                    [(the ip, the rtt). (_, ip, rtt) \<leftarrow> hops, ip \<noteq> None \<and> rtt \<noteq> None]
              in
              fold (\<lambda>i edge_latencies.
                      latency_step (ip_rtt_pairs ! i) (ip_rtt_pairs ! (i + 1)) edge_latencies)
                [0..<length ip_rtt_pairs - 1] edge_latencies)
        results Map.empty)"

section \<open>The derivations as the specification words them\<close>

text \<open>
  \<open>spec_derive_adjacency\<close>: for each destination's hop list, take the subsequence of
  hops with a present address; there is an edge from each address of that subsequence to
  the next one; the graph maps an address to the set of the addresses it has an edge to.
\<close>

definition spec_present :: "hop list \<Rightarrow> string list" where
  "spec_present hops = map (\<lambda>h. the (fst (snd h))) (filter (\<lambda>h. fst (snd h) \<noteq> None) hops)"

definition spec_edges :: "result_set \<Rightarrow> (string \<times> string) set" where
  "spec_edges rs =
     (\<Union>(dest, hops) \<in> set rs. set (zip (spec_present hops) (tl (spec_present hops))))"

definition graph_of :: "(string \<times> string) set \<Rightarrow> adjacency" where
  "graph_of E = (\<lambda>a. if a \<in> fst ` E then Some {b. (a, b) \<in> E} else None)"

definition spec_derive_adjacency :: "result_set \<Rightarrow> adjacency" where
  "spec_derive_adjacency rs = graph_of (spec_edges rs)"

text \<open>
  \<open>spec_derive_edge_latency\<close>: for each destination's hop list, take the subsequence of
  hops with both an address and a round-trip time; each consecutive pair gives the
  sample \<open>next.rtt - current.rtt\<close> for the edge \<open>(current.address, next.address)\<close>, kept
  when it is positive; an edge maps to the list of its samples, in the order taken.
\<close>

definition spec_timed :: "hop list \<Rightarrow> (string \<times> real) list" where
  "spec_timed hops =
     map (\<lambda>h. (the (fst (snd h)), the (snd (snd h))))
       (filter (\<lambda>h. fst (snd h) \<noteq> None \<and> snd (snd h) \<noteq> None) hops)"

definition spec_samples :: "result_set \<Rightarrow> ((string \<times> string) \<times> real) list" where
  "spec_samples rs =
     concat (map (\<lambda>(dest, hops).
       map (\<lambda>(cur, nxt). ((fst cur, fst nxt), snd nxt - snd cur))
         (filter (\<lambda>(cur, nxt). snd nxt - snd cur > 0)
            (zip (spec_timed hops) (tl (spec_timed hops))))) rs)"

definition samples_map :: "((string \<times> string) \<times> real) list \<Rightarrow> edge_latencies" where
  "samples_map S =
     (\<lambda>e. if e \<in> fst ` set S then Some (map snd (filter (\<lambda>s. fst s = e) S)) else None)"

definition spec_derive_edge_latency :: "result_set \<Rightarrow> edge_latencies" where
  "spec_derive_edge_latency rs = samples_map (spec_samples rs)"

text \<open>The data model's condition on a result set: no round-trip time is negative.\<close>

definition rtts_nonnegative :: "result_set \<Rightarrow> bool" where
  "rtts_nonnegative rs =
     list_all (\<lambda>(dest, hops). list_all (\<lambda>(ttl, ip, rtt). rtt = None \<or> 0 \<le> the rtt) hops) rs"

section \<open>Example inputs\<close>

text \<open>
  Three IPv4 packets with a 20-byte header (first byte 0x45) that carry an ICMP message
  of type 11 (time exceeded), 3 (destination unreachable) and 0 (echo reply).
\<close>

definition time_exceeded_packet :: "byte list" where
  "time_exceeded_packet =
     [0x45, 0, 0, 56, 0, 0, 0, 0, 64, 1, 0, 0, 192, 0, 2, 1, 192, 0, 2, 100,
      11, 0, 0, 0, 0, 0, 0, 0]"

definition port_unreachable_packet :: "byte list" where
  "port_unreachable_packet =
     [0x45, 0, 0, 56, 0, 0, 0, 0, 64, 1, 0, 0, 192, 0, 2, 9, 192, 0, 2, 100,
      3, 3, 0, 0, 0, 0, 0, 0]"

definition echo_reply_packet :: "byte list" where
  "echo_reply_packet =
     [0x45, 0, 0, 28, 0, 0, 0, 0, 64, 1, 0, 0, 198, 51, 100, 7, 192, 0, 2, 100,
      0, 0, 0, 0, 0, 0, 0, 0]"

text \<open>
  A network in which \<^verbatim>\<open>host.example\<close> is two hops away, the name \<^verbatim>\<open>a..b\<close> cannot
  be encoded and no other name resolves, and one in which a stray echo reply and a
  truncated packet are all that arrives for the first two probes.
\<close>

definition two_hop_net :: network where
  "two_hop_net =
     \<lparr>gethostbyname = (\<lambda>name.
        if name = ''host.example'' then Inr ''192.0.2.9''
        else if name = ''a..b'' then Inl UnicodeError
        else Inl Gaierror),
      raw_socket = None,
      udp_socket = None,
      setsockopt = (\<lambda>ttl. if 1 \<le> ttl \<and> ttl \<le> 255 then None else Some OSError),
      sendto = (\<lambda>ip p. None),
      clock_start = (\<lambda>ttl. 0),
      arrivals = (\<lambda>ttl.
        if ttl = 1 then [(0.001, Datagram time_exceeded_packet ''192.0.2.1'' 0.010)]
        else if ttl = 2 then [(0.001, Datagram port_unreachable_packet ''192.0.2.9'' 0.020)]
        else [])\<rparr>"

definition stray_net :: network where
  "stray_net =
     \<lparr>gethostbyname = (\<lambda>name.
        if name = ''host.example'' then Inr ''192.0.2.9'' else Inl Gaierror),
      raw_socket = None,
      udp_socket = None,
      setsockopt = (\<lambda>ttl. if 1 \<le> ttl \<and> ttl \<le> 255 then None else Some OSError),
      sendto = (\<lambda>ip p. None),
      clock_start = (\<lambda>ttl. 0),
      arrivals = (\<lambda>ttl.
        if ttl = 1 then [(0.5, Datagram echo_reply_packet ''198.51.100.7'' 0.6)]
        else if ttl = 2 then [(0.5, Datagram [0x45, 0, 0] ''198.51.100.7'' 0.6)]
        else if ttl = 3 then [(0.001, Datagram port_unreachable_packet ''192.0.2.9'' 0.020)]
        else [])\<rparr>"

text \<open>
  A network that refuses the raw socket, one in which no name resolves, and a batch of
  three destinations of which the second does not resolve and the third is traced where
  the raw socket is refused.
\<close>

definition denied_net :: network where
  "denied_net =
     \<lparr>gethostbyname = (\<lambda>name.
        if name = ''denied.example'' then Inr ''192.0.2.77'' else Inl Gaierror),
      raw_socket = Some PermissionError,
      udp_socket = None,
      setsockopt = (\<lambda>ttl. if 1 \<le> ttl \<and> ttl \<le> 255 then None else Some OSError),
      sendto = (\<lambda>ip p. None),
      clock_start = (\<lambda>ttl. 0),
      arrivals = (\<lambda>ttl. [])\<rparr>"

definition unresolved_net :: network where
  "unresolved_net = denied_net\<lparr>gethostbyname := (\<lambda>name. Inl Gaierror)\<rparr>"

definition batch_world :: "nat \<Rightarrow> network" where
  "batch_world i = (if i = 2 then denied_net else two_hop_net)"

definition denied_world :: "nat \<Rightarrow> network" where
  "denied_world i = denied_net"

definition unresolved_world :: "nat \<Rightarrow> network" where
  "unresolved_world i = unresolved_net"

definition batch :: "string list" where
  "batch = [''host.example'', ''no.such.host'', ''denied.example'']"

section \<open>Properties of \<^verbatim>\<open>_parse_icmp_type\<close>\<close>

lemma slice_four:
  assumes "i + 4 \<le> length xs"
  shows "py_slice xs i (i + 4) = [xs ! i, xs ! (i + 1), xs ! (i + 2), xs ! (i + 3)]"
proof -
  have d: "\<And>k. k < 4 \<Longrightarrow> drop (i + k) xs = xs ! (i + k) # drop (Suc (i + k)) xs"
    using assms by (simp add: Cons_nth_drop_Suc)
  have "take 4 (drop i xs) = [xs ! i, xs ! (i + 1), xs ! (i + 2), xs ! (i + 3)]"
    using d [of 0] d [of 1] d [of 2] d [of 3] by (simp add: numeral_eq_Suc)
  then show ?thesis by (simp add: py_slice_def)
qed

lemma parse_icmp_type_value:
  "parse_icmp_type data =
     Inr (if length data < 20 \<or> length data < header_length data + 4 then None
          else Some (unat (data ! header_length data)))"
proof (cases "length data < 20 \<or> length data < header_length data + 4")
  case True
  then show ?thesis by (auto simp: parse_icmp_type_def Let_def)
next
  case False
  then have "header_length data + 4 \<le> length data" by simp
  from slice_four [OF this] False show ?thesis
    by (simp add: parse_icmp_type_def Let_def)
qed

text \<open>
  Claim C10. On every byte string \<^verbatim>\<open>_parse_icmp_type\<close> returns (it raises nothing, not even
  the \<^verbatim>\<open>struct.error\<close> of \<^verbatim>\<open>struct.unpack\<close>): the result is \<^verbatim>\<open>None\<close> exactly when the
  input has fewer than 20 bytes or fewer than (first byte AND 0x0F) * 4 + 4 bytes, and
  otherwise it is the byte at offset (first byte AND 0x0F) * 4, a number from 0 to 255.
\<close>

theorem parse_icmp_type_total:
  "parse_icmp_type data =
     Inr (if length data < 20 \<or> length data < unat (data ! 0 AND 0x0F) * 4 + 4 then None
          else Some (unat (data ! (unat (data ! 0 AND 0x0F) * 4))))
   \<and> unat (data ! (unat (data ! 0 AND 0x0F) * 4)) \<le> 255"
proof -
  have "unat (data ! header_length data) \<le> 255"
    using unsigned_less [of "data ! header_length data", where 'a = nat] by simp
  then show ?thesis
    unfolding parse_icmp_type_value by (simp add: header_length_def)
qed

section \<open>Properties of \<^verbatim>\<open>_receive_reply\<close> and \<^verbatim>\<open>Traceroute.run\<close>\<close>

lemma parse_examples:
  "parse_icmp_type time_exceeded_packet = Inr (Some 11)"
  "parse_icmp_type port_unreachable_packet = Inr (Some 3)"
  "parse_icmp_type echo_reply_packet = Inr (Some 0)"
  "parse_icmp_type [0x45, 0, 0] = Inr None"
  by (simp_all add: parse_icmp_type_value header_length_def time_exceeded_packet_def
      port_unreachable_packet_def echo_reply_packet_def)

lemmas run_defs = Traceroute_run_def Traceroute_init_def resolve_def create_sockets_def
  send_probe_def receive_reply_def

lemma two_hop_run:
  "Traceroute_run (Traceroute_init 2 33434) two_hop_net ''host.example'' =
     Some (Inr [(1, Some ''192.0.2.1'', Some 10), (2, Some ''192.0.2.9'', Some 20)])"
  by (simp add: run_defs probing.simps two_hop_net_def parse_examples)

lemma receive_loop_returns: "\<exists>r. receive_loop tmo start cur arrs = Inr r"
  by (induction tmo start cur arrs rule: receive_loop.induct)
     (auto simp: parse_icmp_type_value split: recv.splits)

text \<open>
  Claim C7. A received packet is classified by \<^verbatim>\<open>_parse_icmp_type\<close>: the header length
  is the low nibble of the first byte times four, the type is the byte that follows the
  header, and a packet shorter than 20 bytes (or than its header plus four bytes) has no
  type. While time is left, a packet of type 11 or 3 ends the wait with the sender, the
  type and the elapsed milliseconds; any other packet, or one without a type, makes the
  loop go on with the next arrival, and the wait never raises.
\<close>

theorem reply_classification:
  assumes "0 < tmo - (now - start)"
  shows "\<exists>ty. parse_icmp_type data = Inr ty
    \<and> ty = (if length data < 20 \<or> length data < unat (data ! 0 AND 0x0F) * 4 + 4 then None
            else Some (unat (data ! (unat (data ! 0 AND 0x0F) * 4))))
    \<and> receive_loop tmo start cur ((now, Datagram data addr recv_time) # rest) =
        (if ty = Some 11 \<or> ty = Some 3
         then Inr (Some addr, ty, Some ((recv_time - start) * 1000))
         else receive_loop tmo start (Some addr, ty, Some ((recv_time - start) * 1000)) rest)
    \<and> (\<exists>r. receive_loop tmo start cur ((now, Datagram data addr recv_time) # rest) = Inr r)"
  using assms receive_loop_returns [of tmo start cur "(now, Datagram data addr recv_time) # rest"]
  by (simp add: parse_icmp_type_value header_length_def)

theorem reply_classification_witness:
  "(0 :: real) < 2 - (0.001 - 0)
   \<and> receive_loop 2 0 (None, None, None)
       [(0.001, Datagram echo_reply_packet ''198.51.100.7'' 0.005),
        (0.006, Datagram [0x45, 0, 0] ''198.51.100.7'' 0.007),
        (0.008, Datagram time_exceeded_packet ''192.0.2.1'' 0.010),
        (0.011, Datagram port_unreachable_packet ''192.0.2.9'' 0.012)]
     = Inr (Some ''192.0.2.1'', Some 11, Some 10)"
  using reply_classification [where tmo = 2 and now = "0.001" and start = 0
      and data = echo_reply_packet and cur = "(None, None, None)"
      and addr = "''198.51.100.7''" and recv_time = "0.005" and rest =
      "[(0.006, Datagram [0x45, 0, 0] ''198.51.100.7'' 0.007),
        (0.008, Datagram time_exceeded_packet ''192.0.2.1'' 0.010),
        (0.011, Datagram port_unreachable_packet ''192.0.2.9'' 0.012)]"]
  by (simp add: parse_icmp_type_value header_length_def echo_reply_packet_def
      time_exceeded_packet_def)

text \<open>
  Claim C5 (the code departs from it). The docstring of \<^verbatim>\<open>_receive_reply\<close> promises
  \<^verbatim>\<open>(None, None, None)\<close> on timeout or parsing failure, but the loop assigns
  \<^verbatim>\<open>addr\<close>, \<^verbatim>\<open>rtt_ms\<close> and \<^verbatim>\<open>icmp_type\<close> before it looks at the type: after an echo
  reply (type 0), or a packet too short to parse, and then silence until the timeout,
  the call returns the sender and timing of that packet, and \<^verbatim>\<open>run\<close> records it as
  the hop.
\<close>

theorem receive_reply_stray_packets:
  "receive_reply stray_net 1 2 = Inr (Some ''198.51.100.7'', Some 0, Some 600)
   \<and> receive_reply stray_net 2 2 = Inr (Some ''198.51.100.7'', None, Some 600)
   \<and> Traceroute_run (Traceroute_init 2 33434) stray_net ''host.example'' =
       Some (Inr [(1, Some ''198.51.100.7'', Some 600), (2, Some ''198.51.100.7'', Some 600),
                  (3, Some ''192.0.2.9'', Some 20)])"
  by (simp add: run_defs probing.simps stray_net_def parse_examples)

lemma probing_ttls:
  assumes run: "probing net tmo bp ip ttl hops = Some r"
  shows "r = Inr out \<Longrightarrow> 1 \<le> ttl \<Longrightarrow> map fst hops = [1..ttl - 1] \<Longrightarrow>
    map fst out = [1..int (length out)]"
proof (induct rule: probing.raw_induct [OF _ run])
  case (1 probing net tmo bp ip ttl hops r)
  have pos: "1 \<le> ttl" and inv: "map fst hops = [1..ttl - 1]" and r: "r = Inr out" by fact+
  have ext: "\<And>h. fst h = ttl \<Longrightarrow> map fst (hops @ [h]) = [1..ttl + 1 - 1]"
    using pos inv by (simp add: upto_rec2)
  have fin: "\<And>h. fst h = ttl \<Longrightarrow> map fst (hops @ [h]) = [1..int (length (hops @ [h]))]"
  proof -
    fix h :: hop assume h: "fst h = ttl"
    have "length hops = nat (ttl - 1)"
      using arg_cong [OF inv, of length] by simp
    then have "int (length (hops @ [h])) = ttl" using pos by simp
    then show "map fst (hops @ [h]) = [1..int (length (hops @ [h]))]"
      using ext [OF h] by simp
  qed
  have step: "\<And>h. fst h = ttl \<Longrightarrow> probing net tmo bp ip (ttl + 1) (hops @ [h]) = Some (Inr out)
      \<Longrightarrow> map fst out = [1..int (length out)]"
    using "1.hyps"(1) r pos ext by simp
  from "1.hyps"(2) r show ?case
    by (auto split: sum.splits prod.splits option.splits if_splits
        simp del: map_append upto.simps simp: fin dest: step [rotated])
qed

lemma probing_nonempty:
  assumes run: "probing net tmo bp ip ttl hops = Some r"
  shows "r = Inr out \<Longrightarrow> out \<noteq> []"
proof (induct rule: probing.raw_induct [OF _ run])
  case (1 probing net tmo bp ip ttl hops r)
  from "1.hyps"(2) "1.prems" show ?case
    by (auto split: sum.splits prod.splits option.splits if_splits dest: "1.hyps"(1))
qed

text \<open>
  Claim C3. In every hop list that \<^verbatim>\<open>Traceroute.run\<close> returns, the ttl components
  are exactly 1, 2, ..., N in this order, whatever was received and whenever the trace
  ended.
\<close>

theorem run_hop_indices:
  "Traceroute_run self net destination = Some (Inr hops) \<Longrightarrow>
     map fst hops = [1..int (length hops)]"
  by (auto simp: Traceroute_run_def split: sum.splits dest: probing_ttls)

theorem run_hop_indices_witness:
  "Traceroute_run (Traceroute_init 2 33434) two_hop_net ''host.example'' =
     Some (Inr [(1, Some ''192.0.2.1'', Some 10), (2, Some ''192.0.2.9'', Some 20)])
   \<and> map fst [(1 :: int, Some ''192.0.2.1'', Some (10 :: real)), (2, Some ''192.0.2.9'', Some 20)]
       = [1, 2]"
  using run_hop_indices [OF two_hop_run] two_hop_run by simp

lemma malformed_name_run:
  "Traceroute_run (Traceroute_init 2 33434) two_hop_net ''a..b''
     = Some (Inl (Builtin UnicodeError))"
  by (simp add: run_defs two_hop_net_def)

text \<open>
  Claim C9, as the code has it. When the resolver raises for the name of the
  destination, \<^verbatim>\<open>Traceroute.run\<close> returns no sequence: it raises \<^verbatim>\<open>DNSResolveError\<close>
  when the exception is \<^verbatim>\<open>socket.gaierror\<close> (the name does not resolve), and lets any
  other exception of the resolver through as it is. A sequence that \<^verbatim>\<open>run\<close> returns is
  never empty, since the loop is left only after a hop was appended.
\<close>

theorem run_resolution_failure:
  "(gethostbyname net destination = Inl b \<longrightarrow>
      Traceroute_run self net destination
        = Some (Inl (if b = Gaierror then DNSResolveError else Builtin b)))
   \<and> (Traceroute_run self net destination = Some (Inr hops) \<longrightarrow> hops \<noteq> [])"
  by (auto simp: Traceroute_run_def resolve_def split: sum.splits option.splits
      dest: probing_nonempty)

theorem run_resolution_failure_witness:
  "gethostbyname two_hop_net ''no.such.host'' = Inl Gaierror
   \<and> Traceroute_run (Traceroute_init 2 33434) two_hop_net ''no.such.host''
       = Some (Inl DNSResolveError)
   \<and> gethostbyname two_hop_net ''a..b'' = Inl UnicodeError
   \<and> Traceroute_run (Traceroute_init 2 33434) two_hop_net ''a..b''
       = Some (Inl (Builtin UnicodeError))
   \<and> Traceroute_run (Traceroute_init 2 33434) two_hop_net ''host.example''
       = Some (Inr [(1, Some ''192.0.2.1'', Some 10), (2, Some ''192.0.2.9'', Some 20)])
   \<and> [(1 :: int, Some ''192.0.2.1'', Some (10 :: real)), (2, Some ''192.0.2.9'', Some 20)] \<noteq> []"
  using run_resolution_failure [where net = two_hop_net and destination = "''no.such.host''"
      and self = "Traceroute_init 2 33434" and b = Gaierror]
    run_resolution_failure [where net = two_hop_net and destination = "''a..b''"
      and self = "Traceroute_init 2 33434" and b = UnicodeError]
    run_resolution_failure [where net = two_hop_net and destination = "''host.example''"
      and self = "Traceroute_init 2 33434"
      and hops = "[(1, Some ''192.0.2.1'', Some 10), (2, Some ''192.0.2.9'', Some 20)]"]
    two_hop_run
  by (simp add: two_hop_net_def)

text \<open>
  Claim C9 as stated fails: for a name that does not resolve, \<^verbatim>\<open>run\<close> does not return
  the empty sequence.
\<close>

theorem run_empty_on_resolution_failure_counterexample:
  "gethostbyname two_hop_net ''no.such.host'' = Inl Gaierror
   \<and> Traceroute_run (Traceroute_init 2 33434) two_hop_net ''no.such.host''
       = Some (Inl DNSResolveError)
   \<and> Traceroute_run (Traceroute_init 2 33434) two_hop_net ''no.such.host'' \<noteq> Some (Inr [])"
  by (simp add: run_defs two_hop_net_def)

section \<open>Properties of \<^verbatim>\<open>NetworkTopologer.run\<close> and \<^verbatim>\<open>run_parallel\<close>\<close>

lemma worker_results [simp]: "worker net (self\<lparr>results := r\<rparr>) dest = worker net self dest"
  by (simp add: worker_def)

lemma run_loop_worker:
  "run_loop world self i (dest # dests) =
     (case worker (world i) self dest of
        None \<Rightarrow> None
      | Some (Inl e) \<Rightarrow> Some (Inl e, self)
      | Some (Inr (d, hops)) \<Rightarrow>
          run_loop world (self\<lparr>results := AList.update d hops (results self)\<rparr>) (Suc i) dests)"
  by (simp add: worker_def split: option.splits sum.splits)

lemma run_loop_cong:
  "(\<And>j. j < length dests \<Longrightarrow>
      worker (world (i + j)) self (dests ! j) = worker (world' (i + j)) self (dests ! j)) \<Longrightarrow>
   run_loop world self i dests = run_loop world' self i dests"
proof (induction dests arbitrary: self i)
  case Nil
  show ?case by simp
next
  case (Cons d ds)
  have head: "worker (world i) self d = worker (world' i) self d"
    using Cons.prems [of 0] by simp
  have tail: "\<And>s. run_loop world (self\<lparr>results := s\<rparr>) (Suc i) ds
      = run_loop world' (self\<lparr>results := s\<rparr>) (Suc i) ds"
  proof (rule Cons.IH)
    fix s j assume "j < length ds"
    then show "worker (world (Suc i + j)) (self\<lparr>results := s\<rparr>) (ds ! j)
        = worker (world' (Suc i + j)) (self\<lparr>results := s\<rparr>) (ds ! j)"
      using Cons.prems [of "Suc j"] by simp
  qed
  show ?case
    unfolding run_loop_worker head
    by (simp add: tail split: option.splits sum.splits prod.splits)
qed

lemma run_loop_returns:
  "run_loop world self i dests = Some (Inr rs, self') \<Longrightarrow>
     rs = results self' \<and> nt_timeout self' = nt_timeout self \<and> nt_port self' = nt_port self
     \<and> (\<forall>k. k \<notin> set dests \<longrightarrow> map_of rs k = map_of (results self) k)
     \<and> (\<forall>j<length dests. dests ! j \<notin> set (drop (Suc j) dests) \<longrightarrow>
           (\<exists>hops. worker (world (i + j)) self (dests ! j) = Some (Inr (dests ! j, hops))
              \<and> map_of rs (dests ! j) = Some hops))
     \<and> fst ` set rs = fst ` set (results self) \<union> set dests
     \<and> (distinct (map fst (results self)) \<longrightarrow> distinct (map fst rs))"
proof (induction dests arbitrary: self i)
  case Nil
  then show ?case by auto
next
  case (Cons d ds)
  from Cons.prems obtain hops where
    w: "worker (world i) self d = Some (Inr (d, hops))" and
    rest: "run_loop world (self\<lparr>results := AList.update d hops (results self)\<rparr>) (Suc i) ds
             = Some (Inr rs, self')"
    unfolding run_loop_worker
    by (auto simp: worker_def split: option.splits sum.splits prod.splits if_splits)
  note IH = Cons.IH [OF rest]
  from IH have same: "rs = results self'" "nt_timeout self' = nt_timeout self"
    "nt_port self' = nt_port self" by simp_all
  from IH have keep: "\<And>k. k \<notin> set ds \<Longrightarrow> map_of rs k = ((map_of (results self))(d \<mapsto> hops)) k"
    by (auto simp: update_conv')
  from IH have later: "\<And>j. j < length ds \<Longrightarrow> ds ! j \<notin> set (drop (Suc j) ds) \<Longrightarrow>
      \<exists>hops. worker (world (i + Suc j)) self (ds ! j) = Some (Inr (ds ! j, hops))
         \<and> map_of rs (ds ! j) = Some hops"
    by auto
  from IH have keys: "fst ` set rs = fst ` set (results self) \<union> set (d # ds)"
    by (auto simp: dom_update)
  from IH have dist: "distinct (map fst (results self)) \<longrightarrow> distinct (map fst rs)"
    by (auto simp: distinct_update)
  have idx: "\<exists>hops. worker (world (i + j)) self ((d # ds) ! j) = Some (Inr ((d # ds) ! j, hops))
         \<and> map_of rs ((d # ds) ! j) = Some hops"
    if j: "j < length (d # ds)" and last: "(d # ds) ! j \<notin> set (drop (Suc j) (d # ds))" for j
  proof (cases j)
    case 0
    with last have "d \<notin> set ds" by simp
    from keep [OF this] w 0 show ?thesis by simp
  next
    case (Suc j')
    with j last later [of j'] show ?thesis by simp
  qed
  have other: "\<And>k. k \<notin> set (d # ds) \<Longrightarrow> map_of rs k = map_of (results self) k"
    using keep by simp
  from same other idx keys dist show ?case by blast
qed

lemma run_loop_completes:
  "(\<And>j. j < length dests \<Longrightarrow>
      \<exists>r. Traceroute_run (Traceroute_init (nt_timeout self) (nt_port self)) (world (i + j))
             (dests ! j) = Some r \<and> (\<forall>e. r = Inl e \<longrightarrow> is_TracerouteError e)) \<Longrightarrow>
   \<exists>self'. run_loop world self i dests = Some (Inr (results self'), self')"
proof (induction dests arbitrary: self i)
  case Nil
  show ?case by simp
next
  case (Cons d ds)
  have tail: "\<exists>self'. run_loop world (self\<lparr>results := s\<rparr>) (Suc i) ds
      = Some (Inr (results self'), self')" for s
  proof (rule Cons.IH)
    fix j assume "j < length ds"
    then show "\<exists>r. Traceroute_run
        (Traceroute_init (nt_timeout (self\<lparr>results := s\<rparr>)) (nt_port (self\<lparr>results := s\<rparr>)))
        (world (Suc i + j)) (ds ! j) = Some r \<and> (\<forall>e. r = Inl e \<longrightarrow> is_TracerouteError e)"
      using Cons.prems [of "Suc j"] by simp
  qed
  from Cons.prems [of 0] obtain r where
    r: "Traceroute_run (Traceroute_init (nt_timeout self) (nt_port self)) (world i) d = Some r"
    and ok: "\<forall>e. r = Inl e \<longrightarrow> is_TracerouteError e"
    by auto
  show ?case
  proof (cases r)
    case (Inl e)
    with ok have "is_TracerouteError e" by simp
    with r Inl tail [of "AList.update d [] (results self)"] show ?thesis by simp
  next
    case (Inr hops)
    with r tail [of "AList.update d hops (results self)"] show ?thesis by simp
  qed
qed

lemma worker_recorded:
  "worker net self dest = Some (Inr (d, hops)) \<Longrightarrow>
     hops = (case Traceroute_run (Traceroute_init (nt_timeout self) (nt_port self)) net dest of
               Some (Inr h) \<Rightarrow> h | _ \<Rightarrow> [])"
  by (auto simp: worker_def split: option.splits sum.splits if_splits)

lemma worker_never_TracerouteError:
  "worker net self dest = Some (Inl e) \<Longrightarrow> \<not> is_TracerouteError e"
  by (auto simp: worker_def split: option.splits sum.splits if_splits)

lemma worker_dest: "worker net self dest = Some (Inr (d, hops)) \<Longrightarrow> d = dest"
  by (auto simp: worker_def split: option.splits sum.splits if_splits)

lemma run_loop_never_TracerouteError:
  "run_loop world self i dests = Some (Inl e, self') \<Longrightarrow> \<not> is_TracerouteError e"
proof (induction dests arbitrary: self i)
  case Nil
  then show ?case by simp
next
  case (Cons d ds)
  from Cons.prems show ?case
    unfolding run_loop_worker
    by (auto split: option.splits sum.splits prod.splits
        dest: worker_never_TracerouteError Cons.IH)
qed

lemma as_completed_loop_raises:
  "as_completed_loop self futs = Some (Inl e, self') \<Longrightarrow> Some (Inl e) \<in> set futs"
  by (induction self futs rule: as_completed_loop.induct) auto

lemma as_completed_loop_returns:
  "as_completed_loop self futs = Some (Inr rs, self') \<Longrightarrow>
     rs = results self'
     \<and> fst ` set rs = fst ` set (results self) \<union> {d. \<exists>hops. Some (Inr (d, hops)) \<in> set futs}
     \<and> (\<forall>f\<in>set futs. \<exists>d hops. f = Some (Inr (d, hops)))"
proof (induction self futs rule: as_completed_loop.induct)
  case (4 self dest hops futs)
  from "4.prems" have
    "as_completed_loop (self\<lparr>results := AList.update dest hops (results self)\<rparr>) futs
       = Some (Inr rs, self')" by simp
  from "4.IH" [OF this] show ?case by (auto simp: dom_update)
qed auto

lemma run_parallel_unfold:
  "run_parallel world completion self0 dests workers =
     (if max_workers_of dests workers \<le> 0 then Some (Inl (Builtin ValueError), self0\<lparr>results := []\<rparr>)
      else if None \<in> set (map (\<lambda>i. worker (world i) self0 (dests ! i)) [0..<length dests])
      then None
      else as_completed_loop (self0\<lparr>results := []\<rparr>)
             (map (\<lambda>i. map (\<lambda>i. worker (world i) self0 (dests ! i)) [0..<length dests] ! i)
                completion))"
  by (simp add: run_parallel_def Let_def)

lemma run_parallel_keys:
  assumes "run_parallel world completion self dests workers = Some (Inr rs, self')"
    and "set completion = {..<length dests}"
  shows "rs = results self' \<and> fst ` set rs = set dests"
proof -
  let ?futs = "map (\<lambda>i. worker (world i) self (dests ! i)) [0..<length dests]"
  from assms(1) have loop:
    "as_completed_loop (self\<lparr>results := []\<rparr>) (map (\<lambda>i. ?futs ! i) completion)
       = Some (Inr rs, self')"
    by (simp add: run_parallel_unfold split: if_splits)
  note facts = as_completed_loop_returns [OF loop]
  have nth: "\<And>i. i \<in> set completion \<Longrightarrow> ?futs ! i = worker (world i) self (dests ! i)"
    using assms(2) by simp
  have "{d. \<exists>hops. Some (Inr (d, hops)) \<in> set (map (\<lambda>i. ?futs ! i) completion)} = set dests"
  proof (intro set_eqI iffI)
    fix d assume "d \<in> {d. \<exists>hops. Some (Inr (d, hops)) \<in> set (map (\<lambda>i. ?futs ! i) completion)}"
    then obtain hops where "Some (Inr (d, hops)) \<in> (\<lambda>i. ?futs ! i) ` set completion"
      by auto
    then obtain i where i: "i \<in> set completion" and "?futs ! i = Some (Inr (d, hops))"
      by (elim imageE) simp
    with nth have "worker (world i) self (dests ! i) = Some (Inr (d, hops))" by simp
    from worker_dest [OF this] i assms(2) show "d \<in> set dests" by simp
  next
    fix d assume "d \<in> set dests"
    then obtain i where i: "i < length dests" and d: "dests ! i = d"
      by (auto simp: in_set_conv_nth)
    with assms(2) have mem: "i \<in> set completion" by simp
    then have "?futs ! i \<in> set (map (\<lambda>i. ?futs ! i) completion)" by simp
    with facts have "\<exists>d hops. ?futs ! i = Some (Inr (d, hops))" by blast
    then obtain d' hops where f: "?futs ! i = Some (Inr (d', hops))" by blast
    with nth [OF mem] have "worker (world i) self (dests ! i) = Some (Inr (d', hops))" by simp
    from worker_dest [OF this] d have "d' = d" by simp
    with f have "Some (Inr (d, hops)) = ?futs ! i" by simp
    from this mem have "Some (Inr (d, hops)) \<in> set (map (\<lambda>i. ?futs ! i) completion)"
      unfolding set_map by (rule image_eqI)
    then show "d \<in> {d. \<exists>hops. Some (Inr (d, hops)) \<in> set (map (\<lambda>i. ?futs ! i) completion)}"
      by blast
  qed
  with facts show ?thesis by auto
qed

lemma run_parallel_never_TracerouteError:
  assumes "run_parallel world completion self dests workers = Some (Inl e, self')"
    and "set completion \<subseteq> {..<length dests}"
  shows "\<not> is_TracerouteError e"
proof (cases "max_workers_of dests workers \<le> 0")
  case True
  with assms(1) show ?thesis by (auto simp: run_parallel_unfold)
next
  case False
  let ?futs = "map (\<lambda>i. worker (world i) self (dests ! i)) [0..<length dests]"
  from assms(1) False have
    "as_completed_loop (self\<lparr>results := []\<rparr>) (map (\<lambda>i. ?futs ! i) completion)
       = Some (Inl e, self')"
    by (simp add: run_parallel_unfold split: if_splits)
  from as_completed_loop_raises [OF this] obtain i where
    "i \<in> set completion" "?futs ! i = Some (Inl e)" by auto
  with assms(2) have "worker (world i) self (dests ! i) = Some (Inl e)" by auto
  then show ?thesis by (rule worker_never_TracerouteError)
qed

text \<open>
  Claim C8, as the code has it. When every trace of a batch either returns or raises a
  \<^verbatim>\<open>TracerouteError\<close> (a name that does not resolve, a refused raw socket, a refused
  send), \<^verbatim>\<open>NetworkTopologer.run\<close> returns the stored mapping: the batch is not aborted.
  Every destination is a key; the entry of a destination is what its trace returned,
  and the empty list when the trace failed (for a destination given twice, the last
  trace decides). On a new instance the keys are exactly the destinations, and for
  pairwise distinct destinations the mapping has as many entries as there are
  destinations.
\<close>

theorem run_partial_failure:
  assumes "\<forall>i<length dests. \<exists>r.
      Traceroute_run (Traceroute_init (nt_timeout self) (nt_port self)) (world i) (dests ! i)
        = Some r \<and> (\<forall>e. r = Inl e \<longrightarrow> is_TracerouteError e)"
  shows "\<exists>self'. NetworkTopologer_run world self dests = Some (Inr (results self'), self')
     \<and> (\<forall>i<length dests. dests ! i \<notin> set (drop (Suc i) dests) \<longrightarrow>
          map_of (results self') (dests ! i) =
            Some (case Traceroute_run (Traceroute_init (nt_timeout self) (nt_port self))
                         (world i) (dests ! i) of
                    Some (Inr hops) \<Rightarrow> hops | _ \<Rightarrow> []))
     \<and> set dests \<subseteq> fst ` set (results self')
     \<and> (results self = [] \<longrightarrow> fst ` set (results self') = set dests
           \<and> (distinct dests \<longrightarrow> length (results self') = length dests))"
proof -
  from run_loop_completes [of dests self world 0] assms
  obtain self' where run: "run_loop world self 0 dests = Some (Inr (results self'), self')"
    by auto
  note facts = run_loop_returns [OF run]
  have entry: "map_of (results self') (dests ! i) =
            Some (case Traceroute_run (Traceroute_init (nt_timeout self) (nt_port self))
                         (world i) (dests ! i) of
                    Some (Inr hops) \<Rightarrow> hops | _ \<Rightarrow> [])"
    if "i < length dests" "dests ! i \<notin> set (drop (Suc i) dests)" for i
  proof -
    from facts have "\<forall>j<length dests. dests ! j \<notin> set (drop (Suc j) dests) \<longrightarrow>
           (\<exists>hops. worker (world (0 + j)) self (dests ! j) = Some (Inr (dests ! j, hops))
              \<and> map_of (results self') (dests ! j) = Some hops)"
      by (elim conjE)
    with that obtain hops where
      w: "worker (world i) self (dests ! i) = Some (Inr (dests ! i, hops))" and
      m: "map_of (results self') (dests ! i) = Some hops"
      by auto
    from worker_recorded [OF w] m show ?thesis by simp
  qed
  have keys: "fst ` set (results self') = fst ` set (results self) \<union> set dests"
    using facts by simp
  have count: "length (results self') = length dests"
    if "results self = []" "distinct dests"
  proof -
    from facts that have "distinct (map fst (results self'))" by simp
    then have "length (map fst (results self')) = card (set (map fst (results self')))"
      by (rule distinct_card [symmetric])
    also have "\<dots> = card (set dests)" using keys that by simp
    also have "\<dots> = length dests" using that by (simp add: distinct_card)
    finally show ?thesis by simp
  qed
  have sub: "set dests \<subseteq> fst ` set (results self')" using keys by blast
  have fresh: "results self = [] \<longrightarrow> fst ` set (results self') = set dests
           \<and> (distinct dests \<longrightarrow> length (results self') = length dests)"
    using keys count by simp
  from run have "NetworkTopologer_run world self dests = Some (Inr (results self'), self')"
    by (simp add: NetworkTopologer_run_def)
  with entry sub fresh show ?thesis by blast
qed

lemma batch_traces:
  "Traceroute_run (Traceroute_init 2 33434) two_hop_net ''no.such.host''
     = Some (Inl DNSResolveError)"
  "Traceroute_run (Traceroute_init 2 33434) denied_net ''denied.example''
     = Some (Inl TraceroutePermissionError)"
  "Traceroute_run (Traceroute_init 2 33434) unresolved_net ''denied.example''
     = Some (Inl DNSResolveError)"
  by (simp_all add: run_defs two_hop_net_def denied_net_def unresolved_net_def)

lemma batch_world_simps:
  "batch_world 0 = two_hop_net" "batch_world (Suc 0) = two_hop_net"
  "batch_world (Suc (Suc 0)) = denied_net"
  by (simp_all add: batch_world_def)

theorem run_partial_failure_witness:
  "\<exists>self'. NetworkTopologer_run batch_world (NetworkTopologer_init 2 33434) batch
       = Some (Inr (results self'), self')
     \<and> map_of (results self') ''host.example''
         = Some [(1, Some ''192.0.2.1'', Some 10), (2, Some ''192.0.2.9'', Some 20)]
     \<and> map_of (results self') ''no.such.host'' = Some []
     \<and> map_of (results self') ''denied.example'' = Some []
     \<and> length (results self') = 3"
proof -
  have traces: "\<forall>i<length batch. \<exists>r.
      Traceroute_run (Traceroute_init (nt_timeout (NetworkTopologer_init 2 33434))
          (nt_port (NetworkTopologer_init 2 33434))) (batch_world i) (batch ! i) = Some r
        \<and> (\<forall>e. r = Inl e \<longrightarrow> is_TracerouteError e)"
    by (simp add: batch_def batch_world_simps NetworkTopologer_init_def All_less_Suc
        two_hop_run batch_traces)
  from run_partial_failure [OF traces] obtain self' where
    run: "NetworkTopologer_run batch_world (NetworkTopologer_init 2 33434) batch
       = Some (Inr (results self'), self')"
    and entries: "\<forall>i<length batch. batch ! i \<notin> set (drop (Suc i) batch) \<longrightarrow>
          map_of (results self') (batch ! i) =
            Some (case Traceroute_run (Traceroute_init (nt_timeout (NetworkTopologer_init 2 33434))
                         (nt_port (NetworkTopologer_init 2 33434))) (batch_world i) (batch ! i) of
                    Some (Inr hops) \<Rightarrow> hops | _ \<Rightarrow> [])"
    and fresh: "results (NetworkTopologer_init 2 33434) = [] \<longrightarrow>
          fst ` set (results self') = set batch
           \<and> (distinct batch \<longrightarrow> length (results self') = length batch)"
    by blast
  from entries have
    "map_of (results self') ''host.example''
         = Some [(1, Some ''192.0.2.1'', Some 10), (2, Some ''192.0.2.9'', Some 20)]"
    "map_of (results self') ''no.such.host'' = Some []"
    "map_of (results self') ''denied.example'' = Some []"
    by (simp_all add: batch_def batch_world_simps NetworkTopologer_init_def All_less_Suc
        two_hop_run batch_traces)
  moreover from fresh have "length (results self') = 3"
    by (simp add: batch_def NetworkTopologer_init_def)
  ultimately show ?thesis using run by blast
qed

text \<open>
  Claim C8 as stated fails. A destination given twice has one entry; on an instance
  that \<^verbatim>\<open>run\<close> has used before, the earlier entries are counted as well; and a name that
  the resolver rejects with another exception than \<^verbatim>\<open>socket.gaierror\<close> aborts the batch
  with that exception, the destinations after it untraced.
\<close>

theorem run_partial_failure_counterexample:
  "NetworkTopologer_run batch_world (NetworkTopologer_init 2 33434)
      [''host.example'', ''host.example'']
    = Some (Inr [(''host.example'',
                  [(1, Some ''192.0.2.1'', Some 10), (2, Some ''192.0.2.9'', Some 20)])],
            \<lparr>nt_timeout = 2, nt_port = 33434,
             results = [(''host.example'',
                         [(1, Some ''192.0.2.1'', Some 10), (2, Some ''192.0.2.9'', Some 20)])]\<rparr>)
   \<and> NetworkTopologer_run batch_world
        \<lparr>nt_timeout = 2, nt_port = 33434, results = [(''old.example'', [])]\<rparr>
        [''host.example'']
    = Some (Inr [(''old.example'', []),
                 (''host.example'',
                  [(1, Some ''192.0.2.1'', Some 10), (2, Some ''192.0.2.9'', Some 20)])],
            \<lparr>nt_timeout = 2, nt_port = 33434,
             results = [(''old.example'', []),
                        (''host.example'',
                         [(1, Some ''192.0.2.1'', Some 10), (2, Some ''192.0.2.9'', Some 20)])]\<rparr>)
   \<and> NetworkTopologer_run batch_world (NetworkTopologer_init 2 33434)
        [''host.example'', ''a..b'', ''no.such.host'']
    = Some (Inl (Builtin UnicodeError),
            \<lparr>nt_timeout = 2, nt_port = 33434,
             results = [(''host.example'',
                         [(1, Some ''192.0.2.1'', Some 10), (2, Some ''192.0.2.9'', Some 20)])]\<rparr>)"
  by (simp add: NetworkTopologer_run_def NetworkTopologer_init_def batch_world_simps
      two_hop_run malformed_name_run)

text \<open>
  The other exceptions that \<^verbatim>\<open>Traceroute.run\<close> lets through: a base port whose sum with
  the ttl is no port, and a negative timeout.
\<close>

lemma port_overflow_run:
  "Traceroute_run (Traceroute_init 2 65535) two_hop_net ''host.example''
     = Some (Inl (Builtin OverflowError))"
  by (simp add: run_defs probing.simps two_hop_net_def)

lemma negative_timeout_run:
  "Traceroute_run (Traceroute_init (- 1) 33434) two_hop_net ''host.example''
     = Some (Inl (Builtin ValueError))"
  by (simp add: run_defs two_hop_net_def)

lemma denied_trace:
  assumes "gethostbyname net dest = Inr ip" and "raw_socket net = Some PermissionError"
  shows "Traceroute_run tr net dest = Some (Inl TraceroutePermissionError)"
  using assms by (simp add: Traceroute_run_def resolve_def create_sockets_def)

lemma unresolved_trace:
  "Traceroute_run tr (net\<lparr>gethostbyname := (\<lambda>name. Inl Gaierror)\<rparr>) dest
     = Some (Inl DNSResolveError)"
  by (simp add: Traceroute_run_def resolve_def)

lemma denied_worker:
  assumes "gethostbyname net dest = Inr ip" and "raw_socket net = Some PermissionError"
  shows "worker net self dest = Some (Inr (dest, []))"
  using denied_trace [OF assms] by (simp add: worker_def)

lemma denied_worker_unresolved:
  assumes "gethostbyname net dest = Inr ip" and "raw_socket net = Some PermissionError"
  shows "worker net self dest
    = worker (net\<lparr>gethostbyname := (\<lambda>name. Inl Gaierror)\<rparr>) self dest"
  using denied_trace [OF assms] by (simp add: worker_def unresolved_trace)

lemma as_completed_loop_entry:
  "as_completed_loop self futs = Some (Inr rs, self') \<Longrightarrow>
   (\<And>h'. Some (Inr (k, h')) \<in> set futs \<Longrightarrow> h' = h) \<Longrightarrow>
   (\<exists>h'. Some (Inr (k, h')) \<in> set futs) \<or> map_of (results self) k = Some h \<Longrightarrow>
   map_of rs k = Some h"
proof (induction self futs rule: as_completed_loop.induct)
  case (1 self)
  then show ?case by auto
next
  case (2 self futs)
  then show ?case by simp
next
  case (3 self e futs)
  then show ?case by simp
next
  case (4 self dest hops futs)
  let ?self = "self\<lparr>results := AList.update dest hops (results self)\<rparr>"
  from "4.prems"(1) have loop: "as_completed_loop ?self futs = Some (Inr rs, self')" by simp
  have same: "\<And>h'. Some (Inr (k, h')) \<in> set futs \<Longrightarrow> h' = h"
    using "4.prems"(2) by simp
  have start: "(\<exists>h'. Some (Inr (k, h')) \<in> set futs) \<or> map_of (results ?self) k = Some h"
  proof (cases "dest = k")
    case True
    with "4.prems"(2) [of hops] have "hops = h" by simp
    with True show ?thesis by (simp add: update_conv')
  next
    case False
    with "4.prems"(3) show ?thesis by (auto simp: update_conv')
  qed
  from "4.IH" [OF loop same start] show ?case .
qed

text \<open>
  Claim C4, as the code has it. When the raw socket is refused for a destination of a
  batch, \<^verbatim>\<open>Traceroute.run\<close> raises \<^verbatim>\<open>TraceroutePermissionError\<close>, which is not the
  error of a failed resolution; but \<^verbatim>\<open>NetworkTopologer.run\<close> and \<^verbatim>\<open>run_parallel\<close> catch
  it as a \<^verbatim>\<open>TracerouteError\<close>: neither ever raises a \<^verbatim>\<open>TracerouteError\<close> to its caller,
  the outcome of the call is the one it would have if the name had not resolved, and
  the entry that either stores for the destination is the empty list.
\<close>

theorem permission_error_not_surfaced:
  assumes "i < length dests" and "gethostbyname (world i) (dests ! i) = Inr ip"
    and "raw_socket (world i) = Some PermissionError"
  shows "Traceroute_run (Traceroute_init (nt_timeout self) (nt_port self)) (world i) (dests ! i)
      = Some (Inl TraceroutePermissionError)
    \<and> NetworkTopologer_run world self dests
      = NetworkTopologer_run
          (world(i := (world i)\<lparr>gethostbyname := (\<lambda>name. Inl Gaierror)\<rparr>)) self dests
    \<and> run_parallel world completion self dests workers
      = run_parallel (world(i := (world i)\<lparr>gethostbyname := (\<lambda>name. Inl Gaierror)\<rparr>))
          completion self dests workers
    \<and> (\<forall>e self'. NetworkTopologer_run world self dests = Some (Inl e, self') \<longrightarrow>
          \<not> is_TracerouteError e)
    \<and> (\<forall>e self'. set completion \<subseteq> {..<length dests} \<longrightarrow>
          run_parallel world completion self dests workers = Some (Inl e, self') \<longrightarrow>
          \<not> is_TracerouteError e)
    \<and> (\<forall>rs self'. NetworkTopologer_run world self dests = Some (Inr rs, self') \<longrightarrow>
          dests ! i \<notin> set (drop (Suc i) dests) \<longrightarrow> map_of rs (dests ! i) = Some [])
    \<and> (\<forall>rs self'. run_parallel world completion self dests workers = Some (Inr rs, self') \<longrightarrow>
          set completion \<subseteq> {..<length dests} \<longrightarrow> i \<in> set completion \<longrightarrow>
          (\<forall>j<length dests. dests ! j = dests ! i \<longrightarrow> j = i) \<longrightarrow>
          map_of rs (dests ! i) = Some [])"
proof -
  let ?world' = "world(i := (world i)\<lparr>gethostbyname := (\<lambda>name. Inl Gaierror)\<rparr>)"
  have raised: "Traceroute_run (Traceroute_init (nt_timeout self) (nt_port self)) (world i)
      (dests ! i) = Some (Inl TraceroutePermissionError)"
    using assms(2,3) by (rule denied_trace)
  have same: "worker (world j) s (dests ! j) = worker (?world' j) s (dests ! j)" for j s
    using denied_worker_unresolved [OF assms(2,3)] by simp
  have seq: "NetworkTopologer_run world self dests = NetworkTopologer_run ?world' self dests"
    unfolding NetworkTopologer_run_def by (rule run_loop_cong) (simp add: same)
  have futs: "map (\<lambda>j. worker (world j) self (dests ! j)) [0..<length dests]
      = map (\<lambda>j. worker (?world' j) self (dests ! j)) [0..<length dests]"
    by (rule map_cong) (simp_all only: same)
  have par: "run_parallel world completion self dests workers
      = run_parallel ?world' completion self dests workers"
    unfolding run_parallel_unfold futs ..
  have quiet: "\<not> is_TracerouteError e"
    if "NetworkTopologer_run world self dests = Some (Inl e, self')" for e self'
    using that unfolding NetworkTopologer_run_def by (rule run_loop_never_TracerouteError)
  have quiet_par: "\<not> is_TracerouteError e"
    if "set completion \<subseteq> {..<length dests}"
      "run_parallel world completion self dests workers = Some (Inl e, self')" for e self'
    using that(2,1) by (rule run_parallel_never_TracerouteError)
  have empty: "map_of rs (dests ! i) = Some []"
    if run: "NetworkTopologer_run world self dests = Some (Inr rs, self')"
      and last: "dests ! i \<notin> set (drop (Suc i) dests)" for rs self'
  proof -
    from run have "run_loop world self 0 dests = Some (Inr rs, self')"
      by (simp add: NetworkTopologer_run_def)
    from run_loop_returns [OF this]
    have "\<forall>j<length dests. dests ! j \<notin> set (drop (Suc j) dests) \<longrightarrow>
           (\<exists>hops. worker (world (0 + j)) self (dests ! j) = Some (Inr (dests ! j, hops))
              \<and> map_of rs (dests ! j) = Some hops)"
      by (elim conjE)
    with assms(1) last obtain hops where
      w: "worker (world i) self (dests ! i) = Some (Inr (dests ! i, hops))" and
      m: "map_of rs (dests ! i) = Some hops"
      by auto
    from worker_recorded [OF w] raised m show ?thesis by simp
  qed
  have empty_par: "map_of rs (dests ! i) = Some []"
    if run: "run_parallel world completion self dests workers = Some (Inr rs, self')"
      and bound: "set completion \<subseteq> {..<length dests}" and member: "i \<in> set completion"
      and once: "\<forall>j<length dests. dests ! j = dests ! i \<longrightarrow> j = i" for rs self'
  proof -
    let ?futs = "map (\<lambda>j. worker (world j) self (dests ! j)) [0..<length dests]"
    from run have loop:
      "as_completed_loop (self\<lparr>results := []\<rparr>) (map (\<lambda>j. ?futs ! j) completion)
         = Some (Inr rs, self')"
      by (simp add: run_parallel_unfold split: if_splits)
    have nth: "\<And>j. j \<in> set completion \<Longrightarrow> ?futs ! j = worker (world j) self (dests ! j)"
      using bound by auto
    have denied: "worker (world i) self (dests ! i) = Some (Inr (dests ! i, []))"
      using assms(2,3) by (rule denied_worker)
    have only: "h' = []"
      if "Some (Inr (dests ! i, h')) \<in> set (map (\<lambda>j. ?futs ! j) completion)" for h'
    proof -
      from that have "Some (Inr (dests ! i, h')) \<in> (\<lambda>j. ?futs ! j) ` set completion" by simp
      then obtain j where j: "j \<in> set completion" and "Some (Inr (dests ! i, h')) = ?futs ! j"
        by (rule imageE)
      with nth have w: "worker (world j) self (dests ! j) = Some (Inr (dests ! i, h'))" by simp
      from worker_dest [OF w] have "dests ! j = dests ! i" by simp
      moreover from j bound have "j < length dests" by auto
      ultimately have "j = i" using once by simp
      with w denied show ?thesis by simp
    qed
    have "Some (Inr (dests ! i, [])) = ?futs ! i" using nth [OF member] denied by simp
    from this member have "Some (Inr (dests ! i, [])) \<in> set (map (\<lambda>j. ?futs ! j) completion)"
      unfolding set_map by (rule image_eqI)
    then have some: "(\<exists>h'. Some (Inr (dests ! i, h')) \<in> set (map (\<lambda>j. ?futs ! j) completion))
        \<or> map_of (results (self\<lparr>results := []\<rparr>)) (dests ! i) = Some []"
      by blast
    from as_completed_loop_entry [OF loop only some] show ?thesis .
  qed
  from raised seq par quiet quiet_par empty empty_par show ?thesis by blast
qed

theorem permission_error_not_surfaced_witness:
  "Traceroute_run (Traceroute_init 2 33434) denied_net ''denied.example''
      = Some (Inl TraceroutePermissionError)
   \<and> NetworkTopologer_run batch_world (NetworkTopologer_init 2 33434) batch
      = NetworkTopologer_run (batch_world(2 := unresolved_net)) (NetworkTopologer_init 2 33434) batch
   \<and> run_parallel batch_world [2, 0, 1] (NetworkTopologer_init 2 33434) batch None
      = run_parallel (batch_world(2 := unresolved_net)) [2, 0, 1]
          (NetworkTopologer_init 2 33434) batch None"
proof -
  have h1: "2 < length batch" by (simp add: batch_def)
  have h2: "gethostbyname (batch_world 2) (batch ! 2) = Inr ''192.0.2.77''"
    by (simp add: batch_def batch_world_def denied_net_def)
  have h3: "raw_socket (batch_world 2) = Some PermissionError"
    by (simp add: batch_world_def denied_net_def)
  have w: "batch_world 2 = denied_net" by (simp add: batch_world_def)
  from permission_error_not_surfaced [where i = 2 and dests = batch and world = batch_world
      and self = "NetworkTopologer_init 2 33434" and completion = "[2, 0, 1]"
      and workers = None, OF h1 h2 h3]
  show ?thesis
    unfolding w unresolved_net_def by (simp add: batch_def NetworkTopologer_init_def)
qed

text \<open>
  Claim C4 as stated fails: with the raw socket refused the tracer raises the permission
  error, yet both orchestration calls return normally, with the same mapping and the
  same instance as when the name does not resolve.
\<close>

theorem permission_error_surfaced_counterexample:
  "Traceroute_run (Traceroute_init 2 33434) denied_net ''denied.example''
      = Some (Inl TraceroutePermissionError)
   \<and> NetworkTopologer_run denied_world (NetworkTopologer_init 2 33434) [''denied.example'']
      = Some (Inr [(''denied.example'', [])],
              \<lparr>nt_timeout = 2, nt_port = 33434, results = [(''denied.example'', [])]\<rparr>)
   \<and> NetworkTopologer_run unresolved_world (NetworkTopologer_init 2 33434) [''denied.example'']
      = Some (Inr [(''denied.example'', [])],
              \<lparr>nt_timeout = 2, nt_port = 33434, results = [(''denied.example'', [])]\<rparr>)
   \<and> run_parallel denied_world [0] (NetworkTopologer_init 2 33434) [''denied.example''] None
      = Some (Inr [(''denied.example'', [])],
              \<lparr>nt_timeout = 2, nt_port = 33434, results = [(''denied.example'', [])]\<rparr>)"
  by (simp add: NetworkTopologer_run_def run_parallel_unfold max_workers_of_def worker_def
      NetworkTopologer_init_def denied_world_def unresolved_world_def batch_traces)

text \<open>
  Claim C6 (the code departs from it). \<^verbatim>\<open>run_parallel\<close> starts with
  \<^verbatim>\<open>self.results = {}\<close>, and the keys it returns are exactly the destinations
  (\<open>run_parallel_keys\<close>); \<^verbatim>\<open>run\<close> does not reset the dictionary, so a second call of
  \<^verbatim>\<open>run\<close> on the same instance returns the entries of the first call as well.
\<close>

theorem run_keeps_earlier_entries:
  "NetworkTopologer_run batch_world (NetworkTopologer_init 2 33434) [''no.such.host'']
      = Some (Inr [(''no.such.host'', [])],
              \<lparr>nt_timeout = 2, nt_port = 33434, results = [(''no.such.host'', [])]\<rparr>)
   \<and> NetworkTopologer_run batch_world
        \<lparr>nt_timeout = 2, nt_port = 33434, results = [(''no.such.host'', [])]\<rparr> [''host.example'']
      = Some (Inr [(''no.such.host'', []),
                   (''host.example'',
                    [(1, Some ''192.0.2.1'', Some 10), (2, Some ''192.0.2.9'', Some 20)])],
              \<lparr>nt_timeout = 2, nt_port = 33434,
               results = [(''no.such.host'', []),
                          (''host.example'',
                           [(1, Some ''192.0.2.1'', Some 10), (2, Some ''192.0.2.9'', Some 20)])]\<rparr>)
   \<and> run_parallel batch_world [0]
        \<lparr>nt_timeout = 2, nt_port = 33434, results = [(''no.such.host'', [])]\<rparr> [''host.example'']
        None
      = Some (Inr [(''host.example'',
                    [(1, Some ''192.0.2.1'', Some 10), (2, Some ''192.0.2.9'', Some 20)])],
              \<lparr>nt_timeout = 2, nt_port = 33434,
               results = [(''host.example'',
                           [(1, Some ''192.0.2.1'', Some 10), (2, Some ''192.0.2.9'', Some 20)])]\<rparr>)"
  by (simp add: NetworkTopologer_run_def run_parallel_unfold max_workers_of_def worker_def
      NetworkTopologer_init_def batch_world_simps batch_traces two_hop_run)

section \<open>Properties of \<^verbatim>\<open>build_adjacency\<close> and \<^verbatim>\<open>build_adjacency_with_latency\<close>\<close>

lemma consecutive_pairs:
  "map (\<lambda>i. (xs ! i, xs ! (i + 1))) [0..<length xs - 1] = zip xs (tl xs)"
  by (rule nth_equalityI) (auto simp: nth_tl)

lemma fold_consecutive:
  "fold (\<lambda>i. f (xs ! i) (xs ! (i + 1))) [0..<length xs - 1] s
     = fold (\<lambda>(a, b). f a b) (zip xs (tl xs)) s"
proof -
  have "fold (\<lambda>(a, b). f a b) (map (\<lambda>i. (xs ! i, xs ! (i + 1))) [0..<length xs - 1]) s
      = fold (\<lambda>i. f (xs ! i) (xs ! (i + 1))) [0..<length xs - 1] s"
    by (simp add: fold_map comp_def)
  then show ?thesis by (simp only: consecutive_pairs)
qed

lemma ips_present:
  "[the ip. (_, ip, _) \<leftarrow> hops, ip \<noteq> None] = spec_present hops"
  by (induction hops) (auto simp: spec_present_def)

lemma graph_of_empty: "graph_of {} = Map.empty"
  by (simp add: graph_of_def)

lemma add_edge_graph_of: "add_edge (graph_of E) a b = graph_of (insert (a, b) E)"
  by (rule ext) (auto simp: add_edge_def graph_of_def image_iff)

lemma fold_add_edge:
  "fold (\<lambda>(a, b) adj. add_edge adj a b) es (graph_of E) = graph_of (E \<union> set es)"
proof (induction es arbitrary: E)
  case Nil
  show ?case by simp
next
  case (Cons e es)
  obtain a b where e: "e = (a, b)" by (cases e)
  show ?case by (simp add: e add_edge_graph_of Cons.IH)
qed

lemma add_edge_consecutive:
  "fold (\<lambda>i adjacency. add_edge adjacency (xs ! i) (xs ! (i + 1))) [0..<length xs - 1]
     = fold (\<lambda>(a, b) adj. add_edge adj a b) (zip xs (tl xs))"
  using fold_consecutive [of "\<lambda>a b adj. add_edge adj a b" xs] by (intro ext) simp

lemma build_adjacency_loop:
  "build_adjacency self arg =
     fold (\<lambda>(_, hops). fold (\<lambda>(a, b) adj. add_edge adj a b)
                          (zip (spec_present hops) (tl (spec_present hops))))
       (case arg of None \<Rightarrow> results self | Some r \<Rightarrow> r) Map.empty"
  unfolding build_adjacency_def Let_def ips_present add_edge_consecutive ..

lemma build_adjacency_fold:
  "fold (\<lambda>(_, hops). fold (\<lambda>(a, b) adj. add_edge adj a b)
                          (zip (spec_present hops) (tl (spec_present hops))))
        rs (graph_of E) = graph_of (E \<union> spec_edges rs)"
proof (induction rs arbitrary: E)
  case Nil
  show ?case by (simp add: spec_edges_def)
next
  case (Cons r rs)
  obtain dest hops where r: "r = (dest, hops)" by (cases r)
  have "E \<union> set (zip (spec_present hops) (tl (spec_present hops))) \<union> spec_edges rs
      = E \<union> spec_edges (r # rs)"
    by (auto simp: spec_edges_def r)
  then show ?case
    by (simp add: r fold_add_edge Cons.IH)
qed

text \<open>
  Claim C1. For every result set (given as the argument, or the stored one when the
  argument is \<^verbatim>\<open>None\<close>), \<^verbatim>\<open>build_adjacency\<close> returns exactly the graph of the
  specification: the edges are the pairs of consecutive addresses in each destination's
  subsequence of hops with a present address, and an address maps to the set of its
  successors. A hop without an address is skipped, so
  \<open>[(1, A, _), (2, absent, _), (3, D, _)]\<close> gives \<open>{A: {D}}\<close>, and
  \<open>[(1, A, 10.0), (2, B, 20.0), (3, D, 30.0)]\<close> gives \<open>{A: {B}, B: {D}}\<close> (for
  \<open>A \<noteq> B\<close>, as the dictionary display supposes).
\<close>

theorem build_adjacency_derives:
  "build_adjacency self (Some rs) = spec_derive_adjacency rs
   \<and> build_adjacency self None = spec_derive_adjacency (results self)
   \<and> build_adjacency self (Some [(dest, [(1, Some A, r1), (2, None, r2), (3, Some D, r3)])])
       = [A \<mapsto> {D}]
   \<and> (A \<noteq> B \<longrightarrow>
        build_adjacency self
          (Some [(dest, [(1, Some A, Some 10), (2, Some B, Some 20), (3, Some D, Some 30)])])
        = [A \<mapsto> {B}, B \<mapsto> {D}])"
proof -
  have general: "build_adjacency self arg
      = spec_derive_adjacency (case arg of None \<Rightarrow> results self | Some r \<Rightarrow> r)" for arg
    using build_adjacency_fold [of _ "{}"]
    by (simp add: build_adjacency_loop spec_derive_adjacency_def graph_of_empty)
  have gap: "build_adjacency self (Some [(dest, [(1, Some A, r1), (2, None, r2), (3, Some D, r3)])])
       = [A \<mapsto> {D}]"
    by (simp add: build_adjacency_def add_edge_def)
  have path: "build_adjacency self
          (Some [(dest, [(1, Some A, Some 10), (2, Some B, Some 20), (3, Some D, Some 30)])])
        = [A \<mapsto> {B}, B \<mapsto> {D}]" if "A \<noteq> B"
    using that by (simp add: build_adjacency_def add_edge_def numeral_2_eq_2)
  from general [of "Some rs"] general [of None] gap path show ?thesis by simp
qed

theorem build_adjacency_derives_witness:
  "build_adjacency (NetworkTopologer_init 2 33434)
     (Some [(''host.example'',
             [(1, Some ''192.0.2.1'', Some 10), (2, Some ''192.0.2.5'', Some 20),
              (3, Some ''192.0.2.9'', Some 30)])])
   = [''192.0.2.1'' \<mapsto> {''192.0.2.5''}, ''192.0.2.5'' \<mapsto> {''192.0.2.9''}]"
  using build_adjacency_derives [where A = "''192.0.2.1''" and B = "''192.0.2.5''"
      and D = "''192.0.2.9''" and dest = "''host.example''"
      and self = "NetworkTopologer_init 2 33434", THEN conjunct2, THEN conjunct2,
      THEN conjunct2]
  by simp

lemma timed_pairs:
  "[(the ip, the rtt). (_, ip, rtt) \<leftarrow> hops, ip \<noteq> None \<and> rtt \<noteq> None] = spec_timed hops"
  by (induction hops) (auto simp: spec_timed_def)

lemma samples_map_empty: "samples_map [] = Map.empty"
  by (simp add: samples_map_def)

lemma add_sample_samples_map:
  "add_sample (samples_map S) e d = samples_map (S @ [(e, d)])"
proof (rule ext)
  fix k
  have absent: "filter (\<lambda>s. fst s = e) S = []" if "e \<notin> fst ` set S"
    using that by (auto simp: filter_empty_conv)
  show "add_sample (samples_map S) e d k = samples_map (S @ [(e, d)]) k"
    by (auto simp: add_sample_def samples_map_def absent)
qed

lemma latency_step_nonnegative:
  assumes "0 \<le> snd p" and "0 \<le> snd q"
  shows "latency_step p q (samples_map S) =
     samples_map (S @ (if snd q - snd p > 0 then [((fst p, fst q), snd q - snd p)] else []))"
  using assms
  by (cases p; cases q) (auto simp: latency_step_def truthy_def Let_def add_sample_samples_map)

lemma fold_latency_step:
  "(\<And>p q. (p, q) \<in> set pqs \<Longrightarrow> 0 \<le> snd p \<and> 0 \<le> snd q) \<Longrightarrow>
   fold (\<lambda>(p, q). latency_step p q) pqs (samples_map S) =
     samples_map (S @ map (\<lambda>(cur, nxt). ((fst cur, fst nxt), snd nxt - snd cur))
                        (filter (\<lambda>(cur, nxt). snd nxt - snd cur > 0) pqs))"
proof (induction pqs arbitrary: S)
  case Nil
  show ?case by simp
next
  case (Cons pq pqs)
  obtain p q where pq: "pq = (p, q)" by (cases pq)
  from Cons.prems [of p q] have nn: "0 \<le> snd p" "0 \<le> snd q" by (simp_all add: pq)
  have rest: "fold (\<lambda>(p, q). latency_step p q) pqs (samples_map S) =
     samples_map (S @ map (\<lambda>(cur, nxt). ((fst cur, fst nxt), snd nxt - snd cur))
                        (filter (\<lambda>(cur, nxt). snd nxt - snd cur > 0) pqs))" for S
  proof (rule Cons.IH)
    fix p q assume "(p, q) \<in> set pqs"
    then show "0 \<le> snd p \<and> 0 \<le> snd q" using Cons.prems [of p q] by simp
  qed
  show ?case
    by (simp add: pq latency_step_nonnegative [OF nn] rest)
qed

lemma latency_step_consecutive:
  "fold (\<lambda>i edge_latencies. latency_step (xs ! i) (xs ! (i + 1)) edge_latencies)
       [0..<length xs - 1]
     = fold (\<lambda>(p, q). latency_step p q) (zip xs (tl xs))"
  using fold_consecutive [of latency_step xs] by (intro ext) simp

lemma build_adjacency_with_latency_loop:
  "build_adjacency_with_latency self arg =
     fold (\<lambda>(_, hops). fold (\<lambda>(p, q). latency_step p q)
                          (zip (spec_timed hops) (tl (spec_timed hops))))
       (case arg of None \<Rightarrow> results self | Some r \<Rightarrow> r) Map.empty"
  unfolding build_adjacency_with_latency_def Let_def timed_pairs latency_step_consecutive ..

lemma in_set_tl: "x \<in> set (tl xs) \<Longrightarrow> x \<in> set xs"
  by (cases xs) auto

lemma spec_timed_nonnegative:
  assumes "rtts_nonnegative rs" and "(dest, hops) \<in> set rs" and "p \<in> set (spec_timed hops)"
  shows "0 \<le> snd p"
proof -
  from assms(1,2) have "list_all (\<lambda>(ttl, ip, rtt). rtt = None \<or> 0 \<le> the rtt) hops"
    by (auto simp: rtts_nonnegative_def list_all_iff)
  with assms(3) show ?thesis
    by (auto simp: spec_timed_def list_all_iff)
qed

lemma build_adjacency_with_latency_fold:
  "rtts_nonnegative rs \<Longrightarrow>
   fold (\<lambda>(_, hops). fold (\<lambda>(p, q). latency_step p q)
                          (zip (spec_timed hops) (tl (spec_timed hops))))
        rs (samples_map S) = samples_map (S @ spec_samples rs)"
proof (induction rs arbitrary: S)
  case Nil
  show ?case by (simp add: spec_samples_def)
next
  case (Cons r rs)
  obtain dest hops where r: "r = (dest, hops)" by (cases r)
  have tail: "rtts_nonnegative rs" using Cons.prems by (simp add: rtts_nonnegative_def)
  have nn: "0 \<le> snd p \<and> 0 \<le> snd q"
    if "(p, q) \<in> set (zip (spec_timed hops) (tl (spec_timed hops)))" for p q
  proof -
    from that have "p \<in> set (spec_timed hops)" "q \<in> set (spec_timed hops)"
      by (auto dest: set_zip_leftD set_zip_rightD in_set_tl)
    with spec_timed_nonnegative [OF Cons.prems, of dest hops] show ?thesis by (simp add: r)
  qed
  show ?case
    by (simp add: r fold_latency_step [OF nn] Cons.IH [OF tail] spec_samples_def)
qed

text \<open>
  Claim C2. For every result set of the data model (no round-trip time is negative),
  given as the argument or stored, \<^verbatim>\<open>build_adjacency_with_latency\<close> returns exactly the
  mapping of the specification: per destination, the hops with both an address and a
  round-trip time; for each consecutive pair the difference \<open>next.rtt - current.rtt\<close>,
  appended to the list of the edge \<open>(current.address, next.address)\<close> exactly when it is
  positive. On \<open>[(1, A, 10.0), (2, B, 20.0), (3, D, 30.0)]\<close> the result is
  \<open>{(A, B): [10.0], (B, D): [10.0]}\<close> (for two different edges, as the dictionary
  display supposes).
\<close>

theorem build_adjacency_with_latency_derives:
  "(rtts_nonnegative rs \<longrightarrow>
      build_adjacency_with_latency self (Some rs) = spec_derive_edge_latency rs)
   \<and> (rtts_nonnegative (results self) \<longrightarrow>
      build_adjacency_with_latency self None = spec_derive_edge_latency (results self))
   \<and> ((A, B) \<noteq> (B, D) \<longrightarrow>
        build_adjacency_with_latency self
          (Some [(dest, [(1, Some A, Some 10), (2, Some B, Some 20), (3, Some D, Some 30)])])
        = [(A, B) \<mapsto> [10], (B, D) \<mapsto> [10]])"
proof -
  have general: "build_adjacency_with_latency self arg = spec_derive_edge_latency rs'"
    if "rtts_nonnegative rs'" "rs' = (case arg of None \<Rightarrow> results self | Some r \<Rightarrow> r)"
    for arg rs'
    using build_adjacency_with_latency_fold [OF that(1), of "[]"] that(2)
    by (simp add: build_adjacency_with_latency_loop spec_derive_edge_latency_def
        samples_map_empty)
  have path: "build_adjacency_with_latency self
          (Some [(dest, [(1, Some A, Some 10), (2, Some B, Some 20), (3, Some D, Some 30)])])
        = [(A, B) \<mapsto> [10], (B, D) \<mapsto> [10]]" if "(A, B) \<noteq> (B, D)"
    using that
    by (auto simp: build_adjacency_with_latency_def latency_step_def add_sample_def truthy_def
        numeral_2_eq_2)
  from general [of rs "Some rs"] general [of "results self" None] path show ?thesis by simp
qed

theorem build_adjacency_with_latency_derives_witness:
  "rtts_nonnegative
     [(''host.example'',
       [(1, Some ''192.0.2.1'', Some 10), (2, Some ''192.0.2.5'', Some 20),
        (3, Some ''192.0.2.9'', Some 30)])]
   \<and> build_adjacency_with_latency (NetworkTopologer_init 2 33434)
     (Some [(''host.example'',
             [(1, Some ''192.0.2.1'', Some 10), (2, Some ''192.0.2.5'', Some 20),
              (3, Some ''192.0.2.9'', Some 30)])])
     = [(''192.0.2.1'', ''192.0.2.5'') \<mapsto> [10], (''192.0.2.5'', ''192.0.2.9'') \<mapsto> [10]]
   \<and> spec_derive_edge_latency
     [(''host.example'',
       [(1, Some ''192.0.2.1'', Some 10), (2, Some ''192.0.2.5'', Some 20),
        (3, Some ''192.0.2.9'', Some 30)])]
     = [(''192.0.2.1'', ''192.0.2.5'') \<mapsto> [10], (''192.0.2.5'', ''192.0.2.9'') \<mapsto> [10]]"
proof -
  let ?rs = "[(''host.example'',
       [(1 :: int, Some ''192.0.2.1'', Some (10 :: real)), (2, Some ''192.0.2.5'', Some 20),
        (3, Some ''192.0.2.9'', Some 30)])]"
  have nn: "rtts_nonnegative ?rs" by (simp add: rtts_nonnegative_def)
  note inst = build_adjacency_with_latency_derives [where rs = ?rs
      and self = "NetworkTopologer_init 2 33434" and A = "''192.0.2.1''"
      and B = "''192.0.2.5''" and D = "''192.0.2.9''" and dest = "''host.example''"]
  from inst nn have
    "build_adjacency_with_latency (NetworkTopologer_init 2 33434) (Some ?rs)
       = spec_derive_edge_latency ?rs" by blast
  moreover from inst have
    "build_adjacency_with_latency (NetworkTopologer_init 2 33434) (Some ?rs)
       = [(''192.0.2.1'', ''192.0.2.5'') \<mapsto> [10], (''192.0.2.5'', ''192.0.2.9'') \<mapsto> [10]]"
    by simp
  ultimately show ?thesis using nn by simp
qed

text \<open>
  The condition on the round-trip times is needed: the code takes a zero round-trip
  time of the next hop for a missing one, so after a negative time it drops a positive
  difference.
\<close>

lemma build_adjacency_with_latency_negative_rtt:
  "build_adjacency_with_latency self
     (Some [(dest, [(1, Some A, Some (- 5)), (2, Some B, Some 0)])]) = Map.empty
   \<and> spec_derive_edge_latency [(dest, [(1, Some A, Some (- 5)), (2, Some B, Some 0)])]
       = [(A, B) \<mapsto> [5]]"
  by (auto simp: build_adjacency_with_latency_def latency_step_def add_sample_def truthy_def
      spec_derive_edge_latency_def spec_samples_def spec_timed_def samples_map_def)

end
